theory Spec2Isabelle
  imports Main "HOL-Library.Word" "HOL-Library.Multiset" "HOL-Library.Sublist"
begin

section \<open>Data model of huffman.cpp\<close>

text \<open>
  A byte of the input (\<^verbatim>\<open>char\<close>) is an 8-bit word.  The frequency of a node is a C++
  \<^verbatim>\<open>int\<close>: a 32-bit word that the comparison object reads as a signed number; the
  container stores the same 32 bits as a \<^verbatim>\<open>uint32_t\<close>.  Signed overflow is modelled
  by the two's complement wrap-around of the word type.
\<close>

type_synonym byte = "8 word"

text \<open>
  \<^verbatim>\<open>struct Node { char ch; int freq; Node *left, *right; }\<close>: a child pointer is
  either null (\<open>None\<close>) or owns a node.
\<close>

datatype node = Node (ch: byte) (freq: "32 word") (left: "node option") (right: "node option")

text \<open>
  The ways in which the C++ program leaves its defined behaviour or throws:
  \<^item> \<open>EmptyQueueTop\<close>: \<^verbatim>\<open>minHeap.top()\<close> on an empty priority queue (undefined behaviour);
  \<^item> \<open>OutOfRange\<close>: \<^verbatim>\<open>huffmanCode.at(ch)\<close> for a byte without a code (\<^verbatim>\<open>std::out_of_range\<close>);
  \<^item> \<open>InvalidArgument\<close>: \<^verbatim>\<open>bitset<8>(s)\<close> for a string with a character other than 0 and 1;
  \<^item> \<open>NullDereference\<close>: \<^verbatim>\<open>current->left\<close> with \<^verbatim>\<open>current == nullptr\<close>;
  \<^item> \<open>IndeterminateValue\<close>: use of a variable that a failed \<^verbatim>\<open>read\<close> never wrote;
  \<^item> \<open>EraseOutOfRange\<close>: \<^verbatim>\<open>erase(end() - padding, end())\<close> with more padding than characters.
  None of them is a failure that the program reports: it has no error results of its own.
\<close>

datatype error = EmptyQueueTop | OutOfRange | InvalidArgument | NullDereference
  | IndeterminateValue | EraseOutOfRange

section \<open>The unordered map of frequencies\<close>

text \<open>
  \<^verbatim>\<open>unordered_map<char, int>\<close> is iterated by \<^verbatim>\<open>buildHuffmanTree\<close> and
  \<^verbatim>\<open>writeFrequencyMap\<close>, so its iteration order is part of the behaviour.  C++ leaves
  that order to the library.  The model is the node list of GNU libstdc++ (the hash of a
  \<^verbatim>\<open>char\<close> is its value converted to \<^verbatim>\<open>size_t\<close>; a new node goes to the front of
  its bucket when the bucket has nodes and to the front of the whole list otherwise; the
  bucket count grows 1, 13, 29, 59, 127, 257 and every node is re-linked in list order
  when it grows).  The list holds the nodes in iteration order.
\<close>

type_synonym 'v umap = "(byte \<times> 'v) list"

definition hash_char :: "byte \<Rightarrow> nat" where
  "hash_char c = unat (scast c :: 64 word)"

definition bucket_count :: "nat \<Rightarrow> nat" where
  "bucket_count n =
     (if n = 0 then 1 else if n \<le> 13 then 13 else if n \<le> 29 then 29
      else if n \<le> 59 then 59 else if n \<le> 127 then 127 else 257)"

definition same_bucket :: "nat \<Rightarrow> byte \<Rightarrow> (byte \<times> 'v) \<Rightarrow> bool" where
  "same_bucket nb k y = (hash_char (fst y) mod nb = hash_char k mod nb)"

definition insert_bucket_begin :: "nat \<Rightarrow> (byte \<times> 'v) \<Rightarrow> 'v umap \<Rightarrow> 'v umap" where
  "insert_bucket_begin nb x xs =
     (if list_ex (same_bucket nb (fst x)) xs
      then takeWhile (Not \<circ> same_bucket nb (fst x)) xs @ x # dropWhile (Not \<circ> same_bucket nb (fst x)) xs
      else x # xs)"

definition rehash :: "nat \<Rightarrow> 'v umap \<Rightarrow> 'v umap" where
  "rehash nb xs = fold (insert_bucket_begin nb) xs []"

definition um_insert :: "(byte \<times> 'v) \<Rightarrow> 'v umap \<Rightarrow> 'v umap" where
  "um_insert x xs =
     (let nb = bucket_count (length xs + 1)
      in insert_bucket_begin nb x (if nb = bucket_count (length xs) then xs else rehash nb xs))"

text \<open>
  \<^verbatim>\<open>m[k]\<close> followed by a write through the reference: a missing key is first inserted
  with the value 0, then the value of \<open>k\<close> is changed in place.
\<close>

definition um_modify :: "('v::zero) umap \<Rightarrow> byte \<Rightarrow> ('v \<Rightarrow> 'v) \<Rightarrow> 'v umap" where
  "um_modify xs k f =
     map (\<lambda>p. if fst p = k then (k, f (snd p)) else p)
       (if map_of xs k = None then um_insert (k, 0) xs else xs)"

section \<open>buildFrequencyMap\<close>

definition buildFrequencyMap :: "byte list \<Rightarrow> (32 word) umap" where
  "buildFrequencyMap text = fold (\<lambda>c fm. um_modify fm c (\<lambda>v. v + 1)) text []"

section \<open>The priority queue\<close>

text \<open>
  \<^verbatim>\<open>Compare\<close> orders two nodes by \<^verbatim>\<open>left->freq > right->freq\<close> on signed integers.
  \<^verbatim>\<open>priority_queue<Node*, vector<Node*>, Compare>\<close> is a binary heap in a vector:
  \<^verbatim>\<open>push\<close> is \<^verbatim>\<open>push_back\<close> and \<^verbatim>\<open>push_heap\<close>, \<^verbatim>\<open>pop\<close> is \<^verbatim>\<open>pop_heap\<close> and
  \<^verbatim>\<open>pop_back\<close>, \<^verbatim>\<open>top\<close> is the first element.  The two heap algorithms are those of
  libstdc++: a hole moves up while its parent compares greater than the value, and on a
  pop the hole first moves down to a leaf along the children that do not compare greater.
\<close>

definition Compare :: "node \<Rightarrow> node \<Rightarrow> bool" where
  "Compare l r = (sint (freq r) < sint (freq l))"

function push_heap_hole :: "node list \<Rightarrow> nat \<Rightarrow> nat \<Rightarrow> node \<Rightarrow> node list" where
  "push_heap_hole xs hole topIndex v =
     (if topIndex < hole \<and> Compare (xs ! ((hole - 1) div 2)) v
      then push_heap_hole (xs[hole := xs ! ((hole - 1) div 2)]) ((hole - 1) div 2) topIndex v
      else xs[hole := v])"
  by pat_completeness auto
termination
  by (relation "measure (\<lambda>(xs, hole, topIndex, v). hole)") auto

declare push_heap_hole.simps [simp del]

function adjust_down :: "node list \<Rightarrow> nat \<Rightarrow> nat \<Rightarrow> node list \<times> nat" where
  "adjust_down xs hole len =
     (if hole < (len - 1) div 2
      then (let c = 2 * (hole + 1);
                c' = (if Compare (xs ! c) (xs ! (c - 1)) then c - 1 else c)
            in adjust_down (xs[hole := xs ! c']) c' len)
      else (xs, hole))"
  by pat_completeness auto
termination
  by (relation "measure (\<lambda>(xs, hole, len). len - hole)") (auto simp: Let_def)

declare adjust_down.simps [simp del]

definition adjust_heap :: "node list \<Rightarrow> nat \<Rightarrow> nat \<Rightarrow> node \<Rightarrow> node list" where
  "adjust_heap xs hole len v =
     (case adjust_down xs hole len of (ys, h) \<Rightarrow>
        if even len \<and> h = (len - 2) div 2
        then push_heap_hole (ys[h := ys ! (2 * (h + 1) - 1)]) (2 * (h + 1) - 1) hole v
        else push_heap_hole ys h hole v)"

definition pq_push :: "node list \<Rightarrow> node \<Rightarrow> node list" where
  "pq_push xs v = push_heap_hole (xs @ [v]) (length xs) 0 v"

definition pq_pop :: "node list \<Rightarrow> node list" where
  "pq_pop xs =
     (if 1 < length xs
      then butlast (adjust_heap (xs[length xs - 1 := xs ! 0]) 0 (length xs - 1) (last xs))
      else butlast xs)"

lemma length_push_heap_hole [simp]: "length (push_heap_hole xs hole t v) = length xs"
proof (induction xs hole t v rule: push_heap_hole.induct)
  case (1 xs hole t v)
  then show ?case
    by (subst push_heap_hole.simps) auto
qed

lemma length_adjust_down [simp]: "length (fst (adjust_down xs hole len)) = length xs"
proof (induction xs hole len rule: adjust_down.induct)
  case (1 xs hole len)
  then show ?case
    by (subst adjust_down.simps) (auto simp: Let_def)
qed

lemma length_adjust_heap [simp]: "length (adjust_heap xs hole len v) = length xs"
proof -
  obtain ys h where a: "adjust_down xs hole len = (ys, h)"
    by (cases "adjust_down xs hole len")
  from length_adjust_down [of xs hole len] a have "length ys = length xs"
    by simp
  with a show ?thesis
    by (simp add: adjust_heap_def)
qed

lemma length_pq_push [simp]: "length (pq_push xs v) = Suc (length xs)"
  by (simp add: pq_push_def)

lemma length_pq_pop [simp]: "length (pq_pop xs) = length xs - 1"
  by (simp add: pq_pop_def)

section \<open>buildHuffmanTree\<close>

text \<open>
  The loop \<^verbatim>\<open>while (minHeap.size() > 1)\<close>: two pops, one merged node pushed.
\<close>

function build_loop :: "node list \<Rightarrow> node list" where
  "build_loop h =
     (if 1 < length h
      then (let l = h ! 0; h1 = pq_pop h;
                r = h1 ! 0; h2 = pq_pop h1
            in build_loop (pq_push h2 (Node 0 (freq l + freq r) (Some l) (Some r))))
      else h)"
  by pat_completeness auto
termination
  by (relation "measure length") auto

declare build_loop.simps [simp del]

definition leaf_heap :: "(32 word) umap \<Rightarrow> node list" where
  "leaf_heap fm = fold (\<lambda>p h. pq_push h (Node (fst p) (snd p) None None)) fm []"

definition buildHuffmanTree :: "(32 word) umap \<Rightarrow> error + node" where
  "buildHuffmanTree fm =
     (case build_loop (leaf_heap fm) of
        [] \<Rightarrow> Inl EmptyQueueTop
      | t # ts \<Rightarrow> Inr t)"

section \<open>generateCodes and encodeText\<close>

text \<open>
  \<^verbatim>\<open>huffmanCode\<close> is only written with \<^verbatim>\<open>[]\<close> and read with \<^verbatim>\<open>at\<close>: a map from bytes
  to strings of the characters 0 and 1.
\<close>

fun generateCodes :: "node option \<Rightarrow> string \<Rightarrow> (byte \<rightharpoonup> string) \<Rightarrow> (byte \<rightharpoonup> string)" where
  "generateCodes None str hc = hc"
| "generateCodes (Some (Node c f l r)) str hc =
     generateCodes r (str @ ''1'')
       (generateCodes l (str @ ''0'')
          (if l = None \<and> r = None then hc(c \<mapsto> str) else hc))"

fun encodeText :: "byte list \<Rightarrow> (byte \<rightharpoonup> string) \<Rightarrow> error + string" where
  "encodeText [] hc = Inr []"
| "encodeText (c # cs) hc =
     (case hc c of
        None \<Rightarrow> Inl OutOfRange
      | Some s \<Rightarrow> (case encodeText cs hc of Inl e \<Rightarrow> Inl e | Inr r \<Rightarrow> Inr (s @ r)))"

section \<open>The container: writeFrequencyMap and writeEncodedData\<close>

text \<open>
  The integers are written as they lie in memory (\<^verbatim>\<open>reinterpret_cast\<close>): least
  significant byte first on the little-endian targets modelled here.
\<close>

definition bytes_u16 :: "16 word \<Rightarrow> byte list" where
  "bytes_u16 w = [ucast w, ucast (drop_bit 8 w)]"

definition bytes_u32 :: "32 word \<Rightarrow> byte list" where
  "bytes_u32 w = [ucast w, ucast (drop_bit 8 w), ucast (drop_bit 16 w), ucast (drop_bit 24 w)]"

definition u16_bytes :: "byte \<Rightarrow> byte \<Rightarrow> 16 word" where
  "u16_bytes b0 b1 = ucast b0 + push_bit 8 (ucast b1)"

definition u32_bytes :: "byte \<Rightarrow> byte \<Rightarrow> byte \<Rightarrow> byte \<Rightarrow> 32 word" where
  "u32_bytes b0 b1 b2 b3 =
     ucast b0 + push_bit 8 (ucast b1) + push_bit 16 (ucast b2) + push_bit 24 (ucast b3)"

definition writeFrequencyMap :: "(32 word) umap \<Rightarrow> byte list" where
  "writeFrequencyMap fm =
     bytes_u16 (of_nat (length fm)) @ concat (map (\<lambda>p. fst p # bytes_u32 (snd p)) fm)"

text \<open>
  \<^verbatim>\<open>bitset<8>(byteString).to_ulong()\<close>: the first character is the most significant of
  the bits given; a character other than 0 and 1 throws.
\<close>

fun bitset_value :: "string \<Rightarrow> byte \<Rightarrow> error + byte" where
  "bitset_value [] acc = Inr acc"
| "bitset_value (c # cs) acc =
     (if c = CHR ''0'' then bitset_value cs (2 * acc)
      else if c = CHR ''1'' then bitset_value cs (2 * acc + 1)
      else Inl InvalidArgument)"

definition bitset8 :: "string \<Rightarrow> error + byte" where
  "bitset8 s = bitset_value (take 8 s) 0"

function write_bytes :: "string \<Rightarrow> error + byte list" where
  "write_bytes s =
     (if s = [] then Inr []
      else (case bitset8 (take 8 s) of
              Inl e \<Rightarrow> Inl e
            | Inr b \<Rightarrow> (case write_bytes (drop 8 s) of Inl e \<Rightarrow> Inl e | Inr bs \<Rightarrow> Inr (b # bs))))"
  by pat_completeness auto
termination
  by (relation "measure length") auto

declare write_bytes.simps [simp del]

definition padding_of :: "string \<Rightarrow> byte" where
  "padding_of encodedText =
     (let padding = of_nat (8 - length encodedText mod 8) :: byte
      in if padding = 8 then 0 else padding)"

definition writeEncodedData :: "string \<Rightarrow> error + byte list" where
  "writeEncodedData encodedText =
     (let padding = padding_of encodedText;
          paddedEncodedText = encodedText @ replicate (unat padding) CHR ''0''
      in case write_bytes paddedEncodedText of
           Inl e \<Rightarrow> Inl e
         | Inr bs \<Rightarrow> Inr (padding # bs))"

section \<open>The container: readFrequencyMap and readEncodedData\<close>

text \<open>
  The input stream is the list of the bytes not yet read.  A \<^verbatim>\<open>read\<close> that finds too
  few bytes leaves its variable unwritten, and every such variable is used right after.
\<close>

fun read_entries :: "nat \<Rightarrow> byte list \<Rightarrow> (32 word) umap \<Rightarrow> error + ((32 word) umap \<times> byte list)" where
  "read_entries 0 bs fm = Inr (fm, bs)"
| "read_entries (Suc n) (c # b0 # b1 # b2 # b3 # bs) fm =
     read_entries n bs (um_modify fm c (\<lambda>v. u32_bytes b0 b1 b2 b3))"
| "read_entries (Suc n) bs fm = Inl IndeterminateValue"

fun readFrequencyMap :: "byte list \<Rightarrow> error + ((32 word) umap \<times> byte list)" where
  "readFrequencyMap (b0 # b1 # bs) = read_entries (unat (u16_bytes b0 b1)) bs []"
| "readFrequencyMap bs = Inl IndeterminateValue"

definition bitset_to_string :: "byte \<Rightarrow> string" where
  "bitset_to_string b = map (\<lambda>i. if bit b i then CHR ''1'' else CHR ''0'') [7, 6, 5, 4, 3, 2, 1, 0]"

fun readEncodedData :: "byte list \<Rightarrow> error + string" where
  "readEncodedData [] = Inl IndeterminateValue"
| "readEncodedData (padding # bs) =
     (let encodedText = concat (map bitset_to_string bs)
      in if 0 < padding \<and> encodedText \<noteq> []
         then (if unat padding \<le> length encodedText
               then Inr (take (length encodedText - unat padding) encodedText)
               else Inl EraseOutOfRange)
         else Inr encodedText)"

section \<open>compress and decompress\<close>

text \<open>
  The two functions on the contents of the files: opening the files and the messages on
  the console are left out.
\<close>

definition huffmanCode_of :: "node \<Rightarrow> (byte \<rightharpoonup> string)" where
  "huffmanCode_of root = generateCodes (Some root) [] Map.empty"

definition compress :: "byte list \<Rightarrow> error + byte list" where
  "compress text =
     (let freqMap = buildFrequencyMap text
      in case buildHuffmanTree freqMap of
           Inl e \<Rightarrow> Inl e
         | Inr root \<Rightarrow>
             (case encodeText text (huffmanCode_of root) of
                Inl e \<Rightarrow> Inl e
              | Inr encodedText \<Rightarrow>
                  (case writeEncodedData encodedText of
                     Inl e \<Rightarrow> Inl e
                   | Inr bs \<Rightarrow> Inr (writeFrequencyMap freqMap @ bs))))"

text \<open>
  The decoding loop of \<^verbatim>\<open>decompress\<close>: \<open>cur\<close> is \<^verbatim>\<open>current\<close>, \<open>out\<close> the bytes written
  so far.
\<close>

fun decode_loop :: "node \<Rightarrow> node \<Rightarrow> string \<Rightarrow> byte list \<Rightarrow> error + byte list" where
  "decode_loop root cur [] out = Inr out"
| "decode_loop root cur (b # bs) out =
     (case (if b = CHR ''0'' then left cur else right cur) of
        None \<Rightarrow> Inl NullDereference
      | Some n \<Rightarrow>
          if left n = None \<and> right n = None
          then decode_loop root root bs (out @ [ch n])
          else decode_loop root n bs out)"

definition decompress :: "byte list \<Rightarrow> error + byte list" where
  "decompress bytes =
     (case readFrequencyMap bytes of
        Inl e \<Rightarrow> Inl e
      | Inr (freqMap, rest) \<Rightarrow>
          (case buildHuffmanTree freqMap of
             Inl e \<Rightarrow> Inl e
           | Inr root \<Rightarrow>
               (case readEncodedData rest of
                  Inl e \<Rightarrow> Inl e
                | Inr encodedText \<Rightarrow> decode_loop root root encodedText [])))"

section \<open>The empty input and the input of one repeated byte\<close>

text \<open>
  C4.  The claim: compressing the empty buffer does not fail but gives an empty
  container, which decompresses to the empty output.  The code has no such case: for the
  empty buffer the frequency map is empty, no leaf is pushed, the loop does not run and
  \<^verbatim>\<open>buildHuffmanTree\<close> returns \<^verbatim>\<open>minHeap.top()\<close> of an empty queue.  No container is
  written.
\<close>

theorem compress_empty_input:
  "buildFrequencyMap [] = [] \<and> buildHuffmanTree [] = Inl EmptyQueueTop
   \<and> compress [] = Inl EmptyQueueTop"
  by code_simp

text \<open>
  C1.  The claim: \<open>decompress (compress B) = B\<close> for every buffer \<open>B\<close>, the buffers of a
  single repeated byte included.  For the one-byte buffer \<open>A\<close> the tree is a single leaf,
  the code of \<open>A\<close> is the empty string, no bit is written, and decompressing the container
  gives the empty output.
\<close>

theorem round_trip_fails_single_byte:
  "compress [65] = Inr [1, 0, 65, 1, 0, 0, 0, 0]
   \<and> decompress [1, 0, 65, 1, 0, 0, 0, 0] = Inr []"
  by code_simp

text \<open>
  C2.  The claim: an input of one repeated byte gives a frequency table of one entry, a
  code of at least one bit for that byte, and a container that decompresses to the input.
  For three copies of \<open>A\<close> the table has its one entry, but the root of the tree is the
  leaf itself, the code of \<open>A\<close> has length 0 and the round trip loses the three bytes.
\<close>

theorem single_symbol_code_is_empty:
  "buildFrequencyMap [65, 65, 65] = [(65, 3)]
   \<and> buildHuffmanTree [(65, 3)] = Inr (Node 65 3 None None)
   \<and> huffmanCode_of (Node 65 3 None None) 65 = Some []
   \<and> compress [65, 65, 65] = Inr [1, 0, 65, 3, 0, 0, 0, 0]
   \<and> decompress [1, 0, 65, 3, 0, 0, 0, 0] = Inr []"
  by code_simp

section \<open>The tree rebuilt by decompress\<close>

text \<open>
  C3.  The claim: the tree that \<^verbatim>\<open>decompress\<close> rebuilds from the stored frequency table
  gives every symbol the code it had in \<^verbatim>\<open>compress\<close>.  The leaves are pushed in the
  iteration order of the map, and \<^verbatim>\<open>readFrequencyMap\<close> inserts the entries into a new
  map in the order in which \<^verbatim>\<open>writeFrequencyMap\<close> iterated the old one.  For the input
  \<open>ab\<close> the map of \<^verbatim>\<open>compress\<close> iterates \<open>b, a\<close>, the map read back iterates \<open>a, b\<close>,
  the two frequencies are equal, and the two trees have their leaves exchanged: \<open>a\<close> has
  the code 1 in \<^verbatim>\<open>compress\<close> and the code 0 in \<^verbatim>\<open>decompress\<close>, which returns \<open>ba\<close>.
\<close>

theorem rebuilt_tree_differs:
  "buildFrequencyMap [97, 98] = [(98, 1), (97, 1)]
   \<and> buildHuffmanTree [(98, 1), (97, 1)]
       = Inr (Node 0 2 (Some (Node 98 1 None None)) (Some (Node 97 1 None None)))
   \<and> compress [97, 98] = Inr [2, 0, 98, 1, 0, 0, 0, 97, 1, 0, 0, 0, 6, 128]
   \<and> readFrequencyMap [2, 0, 98, 1, 0, 0, 0, 97, 1, 0, 0, 0, 6, 128]
       = Inr ([(97, 1), (98, 1)], [6, 128])
   \<and> buildHuffmanTree [(97, 1), (98, 1)]
       = Inr (Node 0 2 (Some (Node 97 1 None None)) (Some (Node 98 1 None None)))
   \<and> huffmanCode_of (Node 0 2 (Some (Node 98 1 None None)) (Some (Node 97 1 None None))) 97
       = Some ''1''
   \<and> huffmanCode_of (Node 0 2 (Some (Node 97 1 None None)) (Some (Node 98 1 None None))) 97
       = Some ''0''
   \<and> decompress [2, 0, 98, 1, 0, 0, 0, 97, 1, 0, 0, 0, 6, 128] = Inr [98, 97]"
  by code_simp

section \<open>Padding and the packing of bits into bytes\<close>

text \<open>
  An encoded text is a string of the characters 0 and 1.  \<open>bits_word\<close> is the value that
  \<open>bitset_value\<close> computes when no character is refused.
\<close>


definition bitchars :: "string \<Rightarrow> bool" where
  "bitchars s = list_all (\<lambda>c. c = CHR ''0'' \<or> c = CHR ''1'') s"

fun bits_word :: "string \<Rightarrow> byte \<Rightarrow> byte" where
  "bits_word [] acc = acc"
| "bits_word (c # cs) acc = bits_word cs (2 * acc + (if c = CHR ''1'' then 1 else 0))"

lemma bitset_value_bits_word:
  "bitchars cs \<Longrightarrow> bitset_value cs acc = Inr (bits_word cs acc)"
  by (induction cs arbitrary: acc) (auto simp: bitchars_def)

lemma bit_step_Suc0: "bit (2 * (a::byte)) (Suc n) = (bit a n \<and> Suc n < 8)"
  by (auto simp: bit_double_Suc_iff possible_bit_def)

lemma bit_step_Suc1: "bit (2 * (a::byte) + 1) (Suc n) = (bit a n \<and> Suc n < 8)"
  by (simp add: add.commute [of _ 1] even_bit_succ_iff bit_step_Suc0 del: mult_2)

lemma bit_step_0: "bit (2 * (a::byte) + 1) 0" "\<not> bit (2 * (a::byte)) 0"
  by (simp_all add: bit_0)

lemma bit_bits_word:
  "bit (bits_word cs acc) i =
     (i < 8 \<and> (if i < length cs then rev cs ! i = CHR ''1'' else bit acc (i - length cs)))"
proof (induction cs arbitrary: acc)
  case Nil
  then show ?case by (auto dest: bit_imp_le_length)
next
  case (Cons c cs)
  show ?case
  proof (cases "i < length cs")
    case True
    then show ?thesis by (simp add: Cons nth_append)
  next
    case False
    show ?thesis
    proof (cases "i - length cs")
      case 0
      with False have i: "i = length cs" by simp
      show ?thesis
        unfolding bits_word.simps Cons using i
        by (simp add: nth_append bit_step_0 del: mult_2)
    next
      case (Suc n)
      with False have n: "i - length (c # cs) = n" "\<not> i < length (c # cs)" by simp_all
      show ?thesis
        unfolding bits_word.simps Cons n using False Suc n
        by (auto simp: bit_step_Suc0 bit_step_Suc1 simp del: mult_2)
    qed
  qed
qed

lemma bit_bits_word_8:
  "length s = 8 \<Longrightarrow> i < 8 \<Longrightarrow> bit (bits_word s 0) i = (rev s ! i = CHR ''1'')"
  by (simp add: bit_bits_word)

lemma rev_nth_8: "map (\<lambda>i. rev [c0, c1, c2, c3, c4, c5, c6, c7] ! i) [7, 6, 5, 4, 3, 2, 1, 0]
    = [c0, c1, c2, c3, c4, c5, c6, c7]"
  by simp

lemma bitchar_cases:
  "c = CHR ''0'' \<or> c = CHR ''1'' \<Longrightarrow> (if c = CHR ''1'' then CHR ''1'' else CHR ''0'') = c"
  by auto

lemma bitchar_id: "bitchars s \<Longrightarrow> map (\<lambda>c. if c = CHR ''1'' then CHR ''1'' else CHR ''0'') s = s"
  by (induction s) (simp_all add: bitchars_def bitchar_cases)

lemma bitset_to_string_bits_word:
  assumes "length s = 8" "bitchars s"
  shows "bitset_to_string (bits_word s 0) = s"
proof -
  from assms(1) obtain c0 c1 c2 c3 c4 c5 c6 c7 where s: "s = [c0, c1, c2, c3, c4, c5, c6, c7]"
    by (auto simp: length_Suc_conv eval_nat_numeral)
  have idx: "map (\<lambda>i. rev s ! i) [7, 6, 5, 4, 3, 2, 1, 0] = s"
    unfolding s by (rule rev_nth_8)
  have "bitset_to_string (bits_word s 0)
      = map (\<lambda>i. if rev s ! i = CHR ''1'' then CHR ''1'' else CHR ''0'') [7, 6, 5, 4, 3, 2, 1, 0]"
    unfolding bitset_to_string_def
    by (rule map_cong [OF refl]) (auto simp: bit_bits_word_8 [OF assms(1)])
  also have "\<dots> = map (\<lambda>c. if c = CHR ''1'' then CHR ''1'' else CHR ''0'')
       (map (\<lambda>i. rev s ! i) [7, 6, 5, 4, 3, 2, 1, 0])"
    by (simp only: map_map o_def)
  also have "\<dots> = s"
    by (simp only: idx bitchar_id [OF assms(2)])
  finally show ?thesis .
qed

lemma bitchars_take: "bitchars s \<Longrightarrow> bitchars (take n s)"
  unfolding bitchars_def list_all_iff by (blast dest: in_set_takeD)

lemma bitchars_drop: "bitchars s \<Longrightarrow> bitchars (drop n s)"
  unfolding bitchars_def list_all_iff by (blast dest: in_set_dropD)

lemma write_bytes_concat:
  "bitchars s \<Longrightarrow> 8 dvd length s \<Longrightarrow>
   \<exists>bs. write_bytes s = Inr bs \<and> concat (map bitset_to_string bs) = s"
proof (induction s rule: write_bytes.induct)
  case (1 s)
  show ?case
  proof (cases "s = []")
    case True
    then show ?thesis by (simp add: write_bytes.simps)
  next
    case False
    with "1.prems" have len: "8 \<le> length s" by (simp add: dvd_imp_le)
    then have l8: "length (take 8 s) = 8" by simp
    have b8: "bitchars (take 8 s)" "bitchars (drop 8 s)"
      using "1.prems"(1) by (simp_all add: bitchars_take bitchars_drop)
    have v: "bitset8 (take 8 s) = Inr (bits_word (take 8 s) 0)"
      by (simp add: bitset8_def bitset_value_bits_word b8)
    have d: "8 dvd length (drop 8 s)"
      using "1.prems"(2) len by (simp add: dvd_diff_nat)
    from "1.IH" [OF False v b8(2) d] obtain bs where
      bs: "write_bytes (drop 8 s) = Inr bs" "concat (map bitset_to_string bs) = drop 8 s"
      by blast
    have "write_bytes s = Inr (bits_word (take 8 s) 0 # bs)"
      by (subst write_bytes.simps) (simp add: False v bs)
    moreover have "concat (map bitset_to_string (bits_word (take 8 s) 0 # bs)) = s"
      by (simp add: bs bitset_to_string_bits_word [OF l8 b8(1)])
    ultimately show ?thesis by blast
  qed
qed

lemma unat_of_nat_byte: "n < 256 \<Longrightarrow> unat (of_nat n :: byte) = n"
  by (simp add: unat_of_nat)

lemma unat_padding_of: "unat (padding_of s) = (8 - length s mod 8) mod 8"
proof -
  have "length s mod 8 < 8" by simp
  then consider "length s mod 8 = 0" | "0 < length s mod 8" "length s mod 8 < 8" by linarith
  then show ?thesis
  proof cases
    case 1
    then show ?thesis by (simp add: padding_of_def)
  next
    case 2
    then have r: "8 - length s mod 8 < 8" "0 < 8 - length s mod 8" by simp_all
    then have u: "unat (of_nat (8 - length s mod 8) :: byte) = 8 - length s mod 8"
      by (intro unat_of_nat_byte) simp
    have "(of_nat (8 - length s mod 8) :: byte) \<noteq> 8"
    proof
      assume "(of_nat (8 - length s mod 8) :: byte) = 8"
      then have "unat (of_nat (8 - length s mod 8) :: byte) = unat (8 :: byte)" by simp
      with u r show False by simp
    qed
    with u r show ?thesis by (simp add: padding_of_def Let_def)
  qed
qed


lemma bitchars_append: "bitchars (a @ b) = (bitchars a \<and> bitchars b)"
  by (simp add: bitchars_def)

lemma bitchars_replicate_0: "bitchars (replicate n CHR ''0'')"
  by (simp add: bitchars_def list_all_iff)

lemma dvd_decomp: "0 < r \<Longrightarrow> r < 8 \<Longrightarrow> (8::nat) dvd q * 8 + r + (8 - r)"
  by simp

lemma padded_dvd: "8 dvd length s + (8 - length s mod 8) mod 8"
proof (cases "length s mod 8 = 0")
  case True
  then show ?thesis by (simp add: dvd_eq_mod_eq_0)
next
  case False
  then have r: "0 < length s mod 8" "length s mod 8 < 8" by simp_all
  then have m: "(8 - length s mod 8) mod 8 = 8 - length s mod 8" by simp
  from dvd_decomp [OF r, of "length s div 8"] show ?thesis
    by (simp only: m div_mult_mod_eq)
qed

text \<open>
  C7.  For an encoded text of \<open>L\<close> bits, \<^verbatim>\<open>writeEncodedData\<close> writes the padding byte
  \<open>(8 - L mod 8) mod 8\<close>, a number from 0 to 7, then the bytes whose bits are the text
  followed by that many 0 bits; \<^verbatim>\<open>readEncodedData\<close> on these bytes strips the padding
  and returns the text itself, so its \<open>L\<close> bits.
\<close>

theorem padding_round_trip:
  assumes "bitchars encodedText"
  shows "\<exists>bs. writeEncodedData encodedText = Inr (padding_of encodedText # bs)
           \<and> unat (padding_of encodedText) = (8 - length encodedText mod 8) mod 8
           \<and> unat (padding_of encodedText) < 8
           \<and> concat (map bitset_to_string bs)
               = encodedText @ replicate (unat (padding_of encodedText)) CHR ''0''
           \<and> readEncodedData (padding_of encodedText # bs) = Inr encodedText"
proof -
  let ?p = "padding_of encodedText"
  let ?padded = "encodedText @ replicate (unat ?p) CHR ''0''"
  have p: "unat ?p = (8 - length encodedText mod 8) mod 8"
    by (rule unat_padding_of)
  have bc: "bitchars ?padded"
    by (simp add: bitchars_append assms bitchars_replicate_0)
  have dv: "8 dvd length ?padded"
    using padded_dvd [of encodedText] by (simp add: p)
  from write_bytes_concat [OF bc dv] obtain bs where
    bs: "write_bytes ?padded = Inr bs" "concat (map bitset_to_string bs) = ?padded"
    by blast
  have w: "writeEncodedData encodedText = Inr (?p # bs)"
    by (simp add: writeEncodedData_def Let_def bs(1))
  have lt: "unat ?p < 8"
    by (simp add: p)
  have pos: "(0 < ?p) = (0 < unat ?p)"
    by (simp add: word_greater_zero_iff unat_gt_0)
  have r: "readEncodedData (?p # bs) = Inr encodedText"
    by (simp add: bs(2) Let_def pos)
  from w p lt bs(2) r show ?thesis by blast
qed

theorem padding_round_trip_witness:
  "bitchars ''10110'' \<and> writeEncodedData ''10110'' = Inr [3, 176]
   \<and> unat (padding_of ''10110'') = 3 \<and> readEncodedData [3, 176] = Inr ''10110''"
proof -
  have h: "bitchars ''10110''"
    by (simp add: bitchars_def)
  have w: "writeEncodedData ''10110'' = Inr [3, 176]"
    by code_simp
  from padding_round_trip [OF h] obtain bs where
    bs: "writeEncodedData ''10110'' = Inr (padding_of ''10110'' # bs)"
      "unat (padding_of ''10110'') = (8 - length ''10110'' mod 8) mod 8"
      "readEncodedData (padding_of ''10110'' # bs) = Inr ''10110''"
    by blast
  from bs(1) w have "padding_of ''10110'' # bs = [3, 176]"
    by simp
  with bs(3) have "readEncodedData [3, 176] = Inr ''10110''"
    by simp
  with h w bs(2) show ?thesis
    by simp
qed

end
